theory Spec2Isabelle
  imports Complex_Main
begin

section \<open>xpng: a shallow embedding of \<^verbatim>\<open>src/xpng.py\<close>\<close>

text \<open>
  The source is Python 2. A \<^verbatim>\<open>str\<close> is a byte string and is modelled as a
  \<^typ>\<open>string\<close> (a list of 8-bit characters); a \<^verbatim>\<open>bytearray\<close> is a byte string
  too, whose elements read as integers (\<^term>\<open>of_char\<close>). Python integers that come out
  of \<^verbatim>\<open>struct\<close> or of \<^verbatim>\<open>len\<close> are naturals; samples, on which the Paeth
  predictor subtracts, and indices, which may be negative, are \<^typ>\<open>int\<close>.
  Every exception of the source is a value of \<open>error\<close>; a method that mutates the
  object and may raise returns its outcome together with the object as it is at
  that moment.
\<close>

datatype error = StructError | IndexError | AttributeError | TypeError | ZlibError | ValueError

subsection \<open>The \<^verbatim>\<open>struct\<close> formats the source uses\<close>

definition be32 :: "string \<Rightarrow> nat" where
  "be32 bs = foldl (\<lambda>acc c. acc * 256 + of_char c) 0 bs"

text \<open>\<^verbatim>\<open>struct.unpack_from("!I4s", data, start)\<close>: eight bytes must be there.\<close>

definition unpack_from_I4s :: "string \<Rightarrow> nat \<Rightarrow> error + nat \<times> string" where
  "unpack_from_I4s data start =
     (if start + 8 \<le> length data
      then Inr (be32 (take 4 (drop start data)), take 4 (drop (start + 4) data))
      else Inl StructError)"

text \<open>\<^verbatim>\<open>struct.unpack_from("!I", data, start)[0]\<close>.\<close>

definition unpack_from_I :: "string \<Rightarrow> nat \<Rightarrow> error + nat" where
  "unpack_from_I data start =
     (if start + 4 \<le> length data then Inr (be32 (take 4 (drop start data)))
      else Inl StructError)"

text \<open>\<^verbatim>\<open>struct.unpack("!IIBBBBB", content)\<close>: exactly thirteen bytes.\<close>

definition unpack_IIBBBBB :: "string \<Rightarrow> error + nat \<times> nat \<times> nat \<times> nat \<times> nat \<times> nat \<times> nat" where
  "unpack_IIBBBBB c =
     (if length c = 13
      then Inr (be32 (take 4 c), be32 (take 4 (drop 4 c)), of_char (c ! 8), of_char (c ! 9),
                of_char (c ! 10), of_char (c ! 11), of_char (c ! 12))
      else Inl StructError)"

text \<open>\<^verbatim>\<open>struct.pack("!L", n)\<close>: raises when \<open>n\<close> does not fit 32 bits.\<close>

definition pack_L :: "nat \<Rightarrow> error + string" where
  "pack_L n =
     (if n < 2 ^ 32
      then Inr [char_of (n div 2 ^ 24), char_of (n div 2 ^ 16), char_of (n div 2 ^ 8), char_of n]
      else Inl StructError)"

text \<open>\<^verbatim>\<open>struct.pack("!L4s", n, name)\<close>: the name is cut or padded with zero bytes to four.\<close>

definition pack_L4s :: "nat \<Rightarrow> string \<Rightarrow> error + string" where
  "pack_L4s n name =
     (case pack_L n of Inl e \<Rightarrow> Inl e
      | Inr bs \<Rightarrow> Inr (bs @ take 4 (name @ replicate 4 (char_of (0::nat)))))"

subsection \<open>Chunks\<close>

datatype chunk =
  Chunk (chunk_size: nat) (chunk_name: string) (chunk_content: string)
        (chunk_checksum: nat) (chunk_offset: nat)

definition parse_chunk :: "string \<Rightarrow> nat \<Rightarrow> error + chunk" where
  "parse_chunk data offset =
     (case unpack_from_I4s data offset of
        Inl e \<Rightarrow> Inl e
      | Inr (sz, name) \<Rightarrow>
          (let start = offset + 8;
               content = take sz (drop start data);
               start' = start + sz
           in case unpack_from_I data start' of
                Inl e \<Rightarrow> Inl e
              | Inr checksum \<Rightarrow> Inr (Chunk sz name content checksum offset)))"

lemma parse_chunk_bound:
  "parse_chunk data offset = Inr c \<Longrightarrow> offset + chunk_size c + 12 \<le> length data"
  by (auto simp: parse_chunk_def unpack_from_I4s_def unpack_from_I_def Let_def
           split: if_splits sum.splits prod.splits)

text \<open>
  The loop of \<^verbatim>\<open>_parse_chunks\<close>. The chunk it starts from is not named IEND, so the body
  runs at least once; it ends at the chunk named IEND or at the first read that fails,
  and the chunks appended so far stay in the object.
\<close>

function parse_chunks_loop :: "string \<Rightarrow> nat \<Rightarrow> chunk list \<Rightarrow> error option \<times> chunk list" where
  "parse_chunks_loop data offset acc =
     (case parse_chunk data offset of
        Inl e \<Rightarrow> (Some e, acc)
      | Inr chunk \<Rightarrow>
          if chunk_name chunk = ''IEND'' then (None, acc @ [chunk])
          else parse_chunks_loop data (offset + chunk_size chunk + 12) (acc @ [chunk]))"
  by pat_completeness auto
termination
proof (relation "measure (\<lambda>(data, offset, acc). length data - offset)")
  show "wf (measure (\<lambda>(data, offset, acc). length data - offset))" by simp
next
  fix data :: string and offset :: nat and acc :: "chunk list" and c :: chunk
  assume "parse_chunk data offset = Inr c"
  then have "offset + chunk_size c + 12 \<le> length data" by (rule parse_chunk_bound)
  then show "((data, offset + chunk_size c + 12, acc @ [c]), (data, offset, acc))
      \<in> measure (\<lambda>(data, offset, acc). length data - offset)" by simp
qed

declare parse_chunks_loop.simps [simp del]

text \<open>
  The scan of \<^verbatim>\<open>_get_chunk\<close> over the chunk list, with its running count of the
  chunks of that name seen so far.
\<close>

fun get_chunk_loop :: "chunk list \<Rightarrow> string \<Rightarrow> int \<Rightarrow> int \<Rightarrow> chunk option" where
  "get_chunk_loop [] name index currentIndex = None"
| "get_chunk_loop (chunk # rest) name index currentIndex =
     (if chunk_name chunk = name
      then (if currentIndex = index then Some chunk
            else get_chunk_loop rest name index (currentIndex + 1))
      else get_chunk_loop rest name index currentIndex)"

subsection \<open>The Paeth predictor and the five filters\<close>

type_synonym pixel = "int list"

definition paeth :: "int \<Rightarrow> int \<Rightarrow> int \<Rightarrow> int" where
  "paeth a b c =
     (let p = a + b - c;
          pa = \<bar>p - a\<bar>;
          pb = \<bar>p - b\<bar>;
          pc = \<bar>p - c\<bar>
      in if pa \<le> pb \<and> pa \<le> pc then a
         else if pb \<le> pc then b
         else c)"

definition type0 :: "pixel \<Rightarrow> pixel \<Rightarrow> pixel \<Rightarrow> pixel \<Rightarrow> pixel" where
  "type0 a b c x = x"

definition type1 :: "pixel \<Rightarrow> pixel \<Rightarrow> pixel \<Rightarrow> pixel \<Rightarrow> pixel" where
  "type1 a b c x = map (\<lambda>k. (fst k + snd k) mod 256) (zip a x)"

definition type2 :: "pixel \<Rightarrow> pixel \<Rightarrow> pixel \<Rightarrow> pixel \<Rightarrow> pixel" where
  "type2 a b c x = map (\<lambda>k. (fst k + snd k) mod 256) (zip b x)"

definition type3 :: "pixel \<Rightarrow> pixel \<Rightarrow> pixel \<Rightarrow> pixel \<Rightarrow> pixel" where
  "type3 a b c x = map (\<lambda>(k0, k1, k2). ((k0 + k1) div 2 + k2) mod 256) (zip a (zip b x))"

definition type4 :: "pixel \<Rightarrow> pixel \<Rightarrow> pixel \<Rightarrow> pixel \<Rightarrow> pixel" where
  "type4 a b c x =
     map (\<lambda>(k0, k1, k2, k3). (paeth k0 k1 k2 + k3) mod 256) (zip a (zip b (zip c x)))"

subsection \<open>The decoder object\<close>

record xpng =
  content :: string
  valid :: nat
  chunks :: "chunk list option"
  width :: nat
  height :: nat
  colorDepth :: nat
  colorType :: nat
  compressionMethod :: nat
  filterMethod :: nat
  interlaceMethod :: nat
  filters_used :: "nat set"
  pixels :: "pixel list list"
  zlevel :: nat

definition init :: "string \<Rightarrow> xpng" where
  "init c =
     \<lparr>content = c, valid = 0, chunks = None, width = 0, height = 0, colorDepth = 0,
      colorType = 0, compressionMethod = 0, filterMethod = 0, interlaceMethod = 0,
      filters_used = {}, pixels = [], zlevel = 0\<rparr>"

definition parse_chunks :: "xpng \<Rightarrow> error option \<times> xpng" where
  "parse_chunks s =
     (case parse_chunks_loop (content s) 8 [] of (r, cs) \<Rightarrow> (r, s\<lparr>chunks := Some cs\<rparr>))"

text \<open>\<^verbatim>\<open>_get_chunk\<close>: iterating over \<^verbatim>\<open>self.chunks\<close> raises while it is still None.\<close>

definition get_chunk :: "xpng \<Rightarrow> string \<Rightarrow> int \<Rightarrow> error + chunk option" where
  "get_chunk s name index =
     (case chunks s of None \<Rightarrow> Inl TypeError
      | Some cs \<Rightarrow> Inr (get_chunk_loop cs name index 0))"

definition generate_chunk_blob :: "chunk \<Rightarrow> error + string" where
  "generate_chunk_blob chunk =
     (case pack_L4s (chunk_size chunk) (chunk_name chunk) of Inl e \<Rightarrow> Inl e
      | Inr blob \<Rightarrow>
          (case pack_L (chunk_checksum chunk) of Inl e \<Rightarrow> Inl e
           | Inr cs \<Rightarrow> Inr (blob @ chunk_content chunk @ cs)))"

definition get_chunk_blob :: "xpng \<Rightarrow> string \<Rightarrow> int \<Rightarrow> error + string option" where
  "get_chunk_blob s name index =
     (case get_chunk s name index of Inl e \<Rightarrow> Inl e
      | Inr None \<Rightarrow> Inr None
      | Inr (Some chunk) \<Rightarrow>
          (case generate_chunk_blob chunk of Inl e \<Rightarrow> Inl e | Inr b \<Rightarrow> Inr (Some b)))"

text \<open>\<^verbatim>\<open>_properties\<close>: an absent IHDR raises at \<^verbatim>\<open>ihdr.content\<close>.\<close>

definition properties :: "xpng \<Rightarrow> error option \<times> xpng" where
  "properties s =
     (case get_chunk s ''IHDR'' 0 of
        Inl e \<Rightarrow> (Some e, s)
      | Inr None \<Rightarrow> (Some AttributeError, s)
      | Inr (Some ihdr) \<Rightarrow>
          (case unpack_IIBBBBB (chunk_content ihdr) of
             Inl e \<Rightarrow> (Some e, s)
           | Inr (w, h, d, t, c, f, i) \<Rightarrow>
               (None, s\<lparr>width := w, height := h, colorDepth := d, colorType := t,
                        compressionMethod := c, filterMethod := f, interlaceMethod := i\<rparr>)))"

text \<open>
  \<^verbatim>\<open>_pixel_size\<close> returns a float. The bit depth is a byte, so
  \<^verbatim>\<open>colorDepth / 8.0\<close>, its product with an entry of the table and the product of
  that with a 32-bit width are multiples of 1/8 below \<open>2 ^ 42\<close>: double arithmetic is
  exact on them, and the rationals compute the same values.
\<close>

definition pixel_size :: "xpng \<Rightarrow> error + rat" where
  "pixel_size s =
     (if colorType s = 3 then Inr 1
      else (let size = [1, 0, 3, 1, 2, 0, 4]
            in if colorType s < length size
               then Inr ((of_nat (colorDepth s) / 8) * size ! colorType s)
               else Inl IndexError))"

text \<open>Python 2's \<^verbatim>\<open>round\<close>: to the nearest integer, a half away from zero.\<close>

definition py_round :: "rat \<Rightarrow> int" where
  "py_round x = (if 0 \<le> x then \<lfloor>x + 1 / 2\<rfloor> else \<lceil>x - 1 / 2\<rceil>)"

text \<open>
  The loop of \<^verbatim>\<open>_decompress\<close>, which asks for the IDAT chunk of each index in turn
  until there is none.
\<close>

lemma get_chunk_loop_Some:
  "get_chunk_loop cs name index k = Some c \<Longrightarrow>
     k \<le> index \<and> nat (index - k) < length (filter (\<lambda>c. chunk_name c = name) cs)"
proof (induction cs arbitrary: k)
  case Nil
  then show ?case by simp
next
  case (Cons a cs)
  show ?case
  proof (cases "chunk_name a = name")
    case False
    with Cons show ?thesis by simp
  next
    case True
    show ?thesis
    proof (cases "k = index")
      case True
      with \<open>chunk_name a = name\<close> show ?thesis by simp
    next
      case False
      with Cons.prems True have "get_chunk_loop cs name index (k + 1) = Some c"
        by simp
      then have "k + 1 \<le> index \<and> nat (index - (k + 1)) < length (filter (\<lambda>c. chunk_name c = name) cs)"
        by (rule Cons.IH)
      with True show ?thesis by (simp add: nat_less_iff) linarith
    qed
  qed
qed

function decompress_loop :: "xpng \<Rightarrow> string \<Rightarrow> int \<Rightarrow> error + string" where
  "decompress_loop s compressed index =
     (case get_chunk s ''IDAT'' index of
        Inl e \<Rightarrow> Inl e
      | Inr None \<Rightarrow> Inr compressed
      | Inr (Some chunk) \<Rightarrow> decompress_loop s (compressed @ chunk_content chunk) (index + 1))"
  by pat_completeness auto
termination
proof (relation "measure (\<lambda>(s, compressed, index).
    length (filter (\<lambda>c. chunk_name c = ''IDAT'') (case chunks s of None \<Rightarrow> [] | Some cs \<Rightarrow> cs))
      - nat index)")
  show "wf (measure (\<lambda>(s, compressed, index).
    length (filter (\<lambda>c. chunk_name c = ''IDAT'') (case chunks s of None \<Rightarrow> [] | Some cs \<Rightarrow> cs))
      - nat index))" by simp
next
  fix s :: xpng and compressed :: string and index :: int and x2 :: "chunk option" and c :: chunk
  assume a: "get_chunk s ''IDAT'' index = Inr x2" "x2 = Some c"
  then obtain cs where cs: "chunks s = Some cs" "get_chunk_loop cs ''IDAT'' index 0 = Some c"
    by (auto simp: get_chunk_def split: option.splits)
  from get_chunk_loop_Some [OF cs(2)]
  have "0 \<le> index" "nat index < length (filter (\<lambda>c. chunk_name c = ''IDAT'') cs)" by simp_all
  with cs(1) show "((s, compressed @ chunk_content c, index + 1), (s, compressed, index))
      \<in> measure (\<lambda>(s, compressed, index).
    length (filter (\<lambda>c. chunk_name c = ''IDAT'') (case chunks s of None \<Rightarrow> [] | Some cs \<Rightarrow> cs))
      - nat index)" by (simp add: nat_add_distrib)
qed

declare decompress_loop.simps [simp del]

text \<open>
  \<^verbatim>\<open>_decompress\<close>. The inflate codec (\<^verbatim>\<open>zlib.decompress\<close>) is a library outside
  the repository: it is the parameter \<open>inflate\<close>, which answers None where the library
  raises. The level hint is stored before the codec is called.
\<close>

definition decompress :: "(string \<Rightarrow> string option) \<Rightarrow> xpng \<Rightarrow> (error + string) \<times> xpng" where
  "decompress inflate s =
     (case decompress_loop s [] 0 of
        Inl e \<Rightarrow> (Inl e, s)
      | Inr compressed \<Rightarrow>
          if length compressed \<le> 1 then (Inl IndexError, s)
          else (let s' = s\<lparr>zlevel := of_char (compressed ! 1) div 64\<rparr>
                in case inflate compressed of
                     None \<Rightarrow> (Inl ZlibError, s')
                   | Some d \<Rightarrow> (Inr d, s')))"

subsection \<open>Removing the filter of a scanline\<close>

text \<open>
  The loop of \<^verbatim>\<open>_unfilter_line\<close> over the pixel indices, with its running \<open>a\<close>, \<open>c\<close>
  and result list; \<^verbatim>\<open>prior[i]\<close> raises past the end of the prior row.
\<close>

fun unfilter_pixels ::
  "(pixel \<Rightarrow> pixel \<Rightarrow> pixel \<Rightarrow> pixel \<Rightarrow> pixel) \<Rightarrow> nat \<Rightarrow> string \<Rightarrow> pixel list \<Rightarrow> nat list \<Rightarrow>
     pixel \<Rightarrow> pixel \<Rightarrow> pixel list \<Rightarrow> error + pixel list" where
  "unfilter_pixels f ps data prior [] a c unfiltered = Inr unfiltered"
| "unfilter_pixels f ps data prior (i # rest) a c unfiltered =
     (let x = map of_char (take ps (drop (i * ps) data))
      in if i < length prior
         then (let b = prior ! i;
                   recon = f a b c x
               in unfilter_pixels f ps data prior rest recon b (unfiltered @ [recon]))
         else Inl IndexError)"

text \<open>\<^verbatim>\<open>int(max(1, self._pixel_size()))\<close>: the pixel size for filtering purposes.\<close>

definition filter_unit :: "rat \<Rightarrow> nat" where
  "filter_unit r = nat \<lfloor>max 1 r\<rfloor>"

definition unfilter_line ::
  "xpng \<Rightarrow> string \<Rightarrow> pixel list option \<Rightarrow> (error + pixel list) \<times> xpng" where
  "unfilter_line s line prior0 =
     (case line of
        [] \<Rightarrow> (Inl IndexError, s)
      | t # data \<Rightarrow>
          (let type = of_char t;
               s1 = s\<lparr>filters_used := insert type (filters_used s)\<rparr>
           in case pixel_size s1 of
                Inl e \<Rightarrow> (Inl e, s1)
              | Inr r \<Rightarrow>
                  (let ps = filter_unit r;
                       zeropixel = replicate ps 0;
                       prior = (case prior0 of
                                  None \<Rightarrow> replicate (length data div ps) zeropixel
                                | Some p \<Rightarrow> p);
                       filters = [type0, type1, type2, type3, type4]
                   in if type < length filters
                      then (unfilter_pixels (filters ! type) ps data prior
                              [0..<length data div ps] zeropixel zeropixel [], s1)
                      else (Inl IndexError, s1))))"

text \<open>The loop of \<^verbatim>\<open>_unfilter\<close> over the rows; the rows done so far stay in the object.\<close>

fun unfilter_rows ::
  "xpng \<Rightarrow> string \<Rightarrow> nat \<Rightarrow> nat list \<Rightarrow> pixel list option \<Rightarrow> error option \<times> xpng" where
  "unfilter_rows s filtered line_size [] prior = (None, s)"
| "unfilter_rows s filtered line_size (y # ys) prior =
     (let line = take line_size (drop (y * line_size) filtered)
      in case unfilter_line s line prior of
           (Inl e, s') \<Rightarrow> (Some e, s')
         | (Inr unfiltered, s') \<Rightarrow>
             unfilter_rows (s'\<lparr>pixels := pixels s' @ [unfiltered]\<rparr>) filtered line_size ys
               (Some unfiltered))"

text \<open>\<^verbatim>\<open>int(round(ps * self.width)) + 1\<close>: the bytes of a scanline, its tag included.\<close>

definition line_size_of :: "rat \<Rightarrow> nat \<Rightarrow> nat" where
  "line_size_of ps w = nat (py_round (ps * of_nat w)) + 1"

definition unfilter :: "(string \<Rightarrow> string option) \<Rightarrow> xpng \<Rightarrow> error option \<times> xpng" where
  "unfilter inflate s =
     (case pixel_size s of
        Inl e \<Rightarrow> (Some e, s)
      | Inr ps \<Rightarrow>
          (let line_size = line_size_of ps (width s)
           in case decompress inflate s of
                (Inl e, s') \<Rightarrow> (Some e, s')
              | (Inr filtered, s') \<Rightarrow>
                  unfilter_rows s' filtered line_size [0..<height s'] None))"

subsection \<open>Construction\<close>

definition png_magic :: string where
  "png_magic = [CHR 0x89, CHR ''P'', CHR ''N'', CHR ''G'']"

definition check_validity :: "(string \<Rightarrow> string option) \<Rightarrow> xpng \<Rightarrow> xpng" where
  "check_validity inflate s0 =
     (if content s0 \<noteq> []
      then (let s1 = s0\<lparr>valid := 1\<rparr>
            in if take (length png_magic) (content s1) = png_magic
               then (let s2 = s1\<lparr>valid := 2\<rparr>
                     in case parse_chunks s2 of
                          (Some e, s3) \<Rightarrow> s3
                        | (None, s3) \<Rightarrow>
                            (case properties (s3\<lparr>valid := 3\<rparr>) of
                               (Some e, s4) \<Rightarrow> s4
                             | (None, s4) \<Rightarrow>
                                 (case unfilter inflate (s4\<lparr>valid := 4\<rparr>) of
                                    (Some e, s5) \<Rightarrow> s5
                                  | (None, s5) \<Rightarrow> s5\<lparr>valid := 10\<rparr>)))
               else s1)
      else s0)"

definition Xpng :: "(string \<Rightarrow> string option) \<Rightarrow> string \<Rightarrow> xpng" where
  "Xpng inflate c = check_validity inflate (init c)"

subsection \<open>Public methods\<close>

text \<open>Python indexing of a list by an integer: a negative index counts from the end.\<close>

definition py_nth :: "'a list \<Rightarrow> int \<Rightarrow> error + 'a" where
  "py_nth xs i =
     (if 0 \<le> i \<and> i < int (length xs) then Inr (xs ! nat i)
      else if i < 0 \<and> - int (length xs) \<le> i then Inr (xs ! nat (int (length xs) + i))
      else Inl IndexError)"

fun palette_loop :: "string \<Rightarrow> nat list \<Rightarrow> pixel list \<Rightarrow> error + pixel list" where
  "palette_loop plteBytes [] colors = Inr colors"
| "palette_loop plteBytes (x # xs) colors =
     (if x + 2 < length plteBytes
      then palette_loop plteBytes xs
             (colors @ [[of_char (plteBytes ! x), of_char (plteBytes ! (x + 1)),
                         of_char (plteBytes ! (x + 2))]])
      else Inl IndexError)"

definition getPaletteColors :: "xpng \<Rightarrow> error + pixel list" where
  "getPaletteColors s =
     (case get_chunk s ''PLTE'' 0 of
        Inl e \<Rightarrow> Inl e
      | Inr None \<Rightarrow> Inl AttributeError
      | Inr (Some plte) \<Rightarrow>
          palette_loop (chunk_content plte)
            (map (\<lambda>k. 3 * k) [0..<(chunk_size plte + 2) div 3]) [])"

definition getPixelRgb :: "xpng \<Rightarrow> int \<Rightarrow> int \<Rightarrow> error + pixel option" where
  "getPixelRgb s x y =
     (if colorDepth s \<noteq> 8 then Inr None
      else case py_nth (pixels s) y of
             Inl e \<Rightarrow> Inl e
           | Inr row \<Rightarrow>
               (case py_nth row x of
                  Inl e \<Rightarrow> Inl e
                | Inr v \<Rightarrow>
                    if colorType s = 2 then Inr (Some v)
                    else if colorType s = 6 then Inr (Some (take 3 v))
                    else if colorType s = 3
                    then (case getPaletteColors s of
                            Inl e \<Rightarrow> Inl e
                          | Inr colors \<Rightarrow>
                              (case py_nth v 0 of
                                 Inl e \<Rightarrow> Inl e
                               | Inr k \<Rightarrow>
                                   (case py_nth colors k of
                                      Inl e \<Rightarrow> Inl e
                                    | Inr col \<Rightarrow> Inr (Some col))))
                    else Inr None))"

text \<open>
  \<^verbatim>\<open>hasColor\<close> returns False, the value of an \<^verbatim>\<open>in\<close> test, or (for a colour type
  other than 2, 6 and 3) falls off its end, which is None. The \<^verbatim>\<open>map\<close> of the
  RGBA branch is eager in Python 2 and reads three samples of every pixel.
\<close>

definition hasColor :: "xpng \<Rightarrow> pixel \<Rightarrow> error + bool option" where
  "hasColor s color =
     (if colorDepth s \<noteq> 8 then Inr (Some False)
      else if colorType s = 2 then Inr (Some (color \<in> set (concat (pixels s))))
      else if colorType s = 6
      then (if list_all (\<lambda>x. 3 \<le> length x) (concat (pixels s))
            then Inr (Some (color \<in> set (map (\<lambda>x. [x ! 0, x ! 1, x ! 2]) (concat (pixels s)))))
            else Inl IndexError)
      else if colorType s = 3
      then (case getPaletteColors s of
              Inl e \<Rightarrow> Inl e
            | Inr colors \<Rightarrow> Inr (Some (color \<in> set colors)))
      else Inr None)"

text \<open>
  The encoder. \<^verbatim>\<open>binascii.crc32\<close> and \<^verbatim>\<open>zlib.compress\<close> are library functions:
  the parameters \<open>crc32\<close> and \<open>deflate\<close>.
\<close>

definition chunk_checksum_of :: "(string \<Rightarrow> int) \<Rightarrow> string \<Rightarrow> string \<Rightarrow> nat" where
  "chunk_checksum_of crc32 name c = nat (crc32 (name @ c) mod 2 ^ 32)"

definition generateChunk :: "(string \<Rightarrow> int) \<Rightarrow> string \<Rightarrow> string \<Rightarrow> chunk" where
  "generateChunk crc32 name data =
     Chunk (length data) name data (chunk_checksum_of crc32 name data) 0"

text \<open>\<^verbatim>\<open>bytearray\<close> of a list of integers raises on a value outside a byte.\<close>

definition bytearray_of :: "int list \<Rightarrow> error + string" where
  "bytearray_of vs =
     (if list_all (\<lambda>v. 0 \<le> v \<and> v < 256) vs then Inr (map char_of vs) else Inl ValueError)"

fun idat_rows :: "pixel list list \<Rightarrow> string \<Rightarrow> error + string" where
  "idat_rows [] data = Inr data"
| "idat_rows (line # rest) data =
     (case bytearray_of (concat line) of
        Inl e \<Rightarrow> Inl e
      | Inr bs \<Rightarrow> idat_rows rest (data @ [CHR 0x00] @ bs))"

definition generateIdat ::
  "(string \<Rightarrow> int) \<Rightarrow> (string \<Rightarrow> string) \<Rightarrow> xpng \<Rightarrow> error + string" where
  "generateIdat crc32 deflate s =
     (case idat_rows (pixels s) [] of
        Inl e \<Rightarrow> Inl e
      | Inr data \<Rightarrow> generate_chunk_blob (generateChunk crc32 ''IDAT'' (deflate data)))"

definition png_signature :: string where
  "png_signature =
     [CHR 0x89, CHR ''P'', CHR ''N'', CHR ''G'', CHR 0x0D, CHR 0x0A, CHR 0x1A, CHR 0x0A]"

definition getBlob :: "(string \<Rightarrow> int) \<Rightarrow> (string \<Rightarrow> string) \<Rightarrow> xpng \<Rightarrow> error + string" where
  "getBlob crc32 deflate s =
     (case get_chunk_blob s ''IHDR'' 0 of
        Inl e \<Rightarrow> Inl e
      | Inr None \<Rightarrow> Inl TypeError
      | Inr (Some ihdr) \<Rightarrow>
          (case get_chunk_blob s ''PLTE'' 0 of
             Inl e \<Rightarrow> Inl e
           | Inr plte \<Rightarrow>
               (let blob = png_signature @ ihdr @ (case plte of None \<Rightarrow> [] | Some b \<Rightarrow> b)
                in case generateIdat crc32 deflate s of
                     Inl e \<Rightarrow> Inl e
                   | Inr idat \<Rightarrow>
                       (case get_chunk_blob s ''IEND'' 0 of
                          Inl e \<Rightarrow> Inl e
                        | Inr None \<Rightarrow> Inl TypeError
                        | Inr (Some iend) \<Rightarrow> Inr (blob @ idat @ iend)))))"

definition conversionSuccess :: "xpng \<Rightarrow> nat" where
  "conversionSuccess s = valid s"

definition zlibCompression :: "xpng \<Rightarrow> nat" where
  "zlibCompression s = 11 + zlevel s"

subsection \<open>The stages of construction, named\<close>

text \<open>
  The outcome of each stage of \<^verbatim>\<open>_check_validity\<close> on a content that starts with the
  magic bytes: the outcome of \<^verbatim>\<open>_parse_chunks\<close>, of \<^verbatim>\<open>_properties\<close> after it, and
  of \<^verbatim>\<open>_unfilter\<close> after both, each with the object as the stage leaves it.
\<close>

definition stage_parse :: "string \<Rightarrow> error option \<times> xpng" where
  "stage_parse c = parse_chunks ((init c)\<lparr>valid := 2\<rparr>)"

definition stage_properties :: "string \<Rightarrow> error option \<times> xpng" where
  "stage_properties c = properties ((snd (stage_parse c))\<lparr>valid := 3\<rparr>)"

definition stage_header :: "string \<Rightarrow> xpng" where
  "stage_header c = (snd (stage_properties c))\<lparr>valid := 4\<rparr>"

definition stage_unfilter :: "(string \<Rightarrow> string option) \<Rightarrow> string \<Rightarrow> error option \<times> xpng" where
  "stage_unfilter inflate c = unfilter inflate (stage_header c)"

subsection \<open>Concrete inputs\<close>

text \<open>
  A codec to run concrete inputs with: a two-byte header before the data as it is.
  The theorems below hold for every codec; only their instances use this one.
\<close>

definition stored_deflate :: "string \<Rightarrow> string" where
  "stored_deflate d = [CHR 0x78, CHR 0x9C] @ d"

definition stored_inflate :: "string \<Rightarrow> string option" where
  "stored_inflate c = (if take 2 c = [CHR 0x78, CHR 0x9C] then Some (drop 2 c) else None)"

definition zero_crc :: "string \<Rightarrow> int" where
  "zero_crc bs = 0"

text \<open>
  The chunks of an image of one column and two rows, 8-bit grayscale, whose rows are
  filtered with types 0 and 1; every checksum field is zero (checksums are not
  verified by the decoder).
\<close>

definition iend_chunk :: string where
  "iend_chunk =
     [CHR 0x00, CHR 0x00, CHR 0x00, CHR 0x00] @ ''IEND'' @ [CHR 0x00, CHR 0x00, CHR 0x00, CHR 0x00]"

definition gray_chunks :: string where
  "gray_chunks =
     [CHR 0x00, CHR 0x00, CHR 0x00, CHR 0x0D] @ ''IHDR''
       @ [CHR 0x00, CHR 0x00, CHR 0x00, CHR 0x01, CHR 0x00, CHR 0x00, CHR 0x00, CHR 0x02,
          CHR 0x08, CHR 0x00, CHR 0x00, CHR 0x00, CHR 0x00]
       @ [CHR 0x00, CHR 0x00, CHR 0x00, CHR 0x00]
     @ [CHR 0x00, CHR 0x00, CHR 0x00, CHR 0x06] @ ''IDAT''
       @ [CHR 0x78, CHR 0x9C, CHR 0x00, CHR 0x07, CHR 0x01, CHR 0x03]
       @ [CHR 0x00, CHR 0x00, CHR 0x00, CHR 0x00]
     @ iend_chunk"

definition png_gray :: string where
  "png_gray = png_signature @ gray_chunks"

text \<open>The same chunks after eight bytes of which only the first four are the signature's.\<close>

definition png_badsig :: string where
  "png_badsig = png_magic @ [CHR 0x00, CHR 0x00, CHR 0x00, CHR 0x00] @ gray_chunks"

text \<open>The same header with a compressed stream that the codec rejects.\<close>

definition png_corrupt :: string where
  "png_corrupt =
     png_signature
     @ [CHR 0x00, CHR 0x00, CHR 0x00, CHR 0x0D] @ ''IHDR''
       @ [CHR 0x00, CHR 0x00, CHR 0x00, CHR 0x01, CHR 0x00, CHR 0x00, CHR 0x00, CHR 0x02,
          CHR 0x08, CHR 0x00, CHR 0x00, CHR 0x00, CHR 0x00]
       @ [CHR 0x00, CHR 0x00, CHR 0x00, CHR 0x00]
     @ [CHR 0x00, CHR 0x00, CHR 0x00, CHR 0x03] @ ''IDAT''
       @ [CHR 0x78, CHR 0xDA, CHR 0xFF]
       @ [CHR 0x00, CHR 0x00, CHR 0x00, CHR 0x00]
     @ iend_chunk"

text \<open>The same header with a second scanline whose filter-type tag is 5.\<close>

definition png_badfilter :: string where
  "png_badfilter =
     png_signature
     @ [CHR 0x00, CHR 0x00, CHR 0x00, CHR 0x0D] @ ''IHDR''
       @ [CHR 0x00, CHR 0x00, CHR 0x00, CHR 0x01, CHR 0x00, CHR 0x00, CHR 0x00, CHR 0x02,
          CHR 0x08, CHR 0x00, CHR 0x00, CHR 0x00, CHR 0x00]
       @ [CHR 0x00, CHR 0x00, CHR 0x00, CHR 0x00]
     @ [CHR 0x00, CHR 0x00, CHR 0x00, CHR 0x06] @ ''IDAT''
       @ [CHR 0x78, CHR 0x9C, CHR 0x00, CHR 0x07, CHR 0x05, CHR 0x03]
       @ [CHR 0x00, CHR 0x00, CHR 0x00, CHR 0x00]
     @ iend_chunk"

text \<open>
  One pixel, 8-bit indexed, of sample 0, with a palette of two colours: (10, 20, 30)
  and (1, 2, 3).
\<close>

definition png_indexed :: string where
  "png_indexed =
     png_signature
     @ [CHR 0x00, CHR 0x00, CHR 0x00, CHR 0x0D] @ ''IHDR''
       @ [CHR 0x00, CHR 0x00, CHR 0x00, CHR 0x01, CHR 0x00, CHR 0x00, CHR 0x00, CHR 0x01,
          CHR 0x08, CHR 0x03, CHR 0x00, CHR 0x00, CHR 0x00]
       @ [CHR 0x00, CHR 0x00, CHR 0x00, CHR 0x00]
     @ [CHR 0x00, CHR 0x00, CHR 0x00, CHR 0x06] @ ''PLTE''
       @ [CHR 0x0A, CHR 0x14, CHR 0x1E, CHR 0x01, CHR 0x02, CHR 0x03]
       @ [CHR 0x00, CHR 0x00, CHR 0x00, CHR 0x00]
     @ [CHR 0x00, CHR 0x00, CHR 0x00, CHR 0x04] @ ''IDAT''
       @ [CHR 0x78, CHR 0x9C, CHR 0x00, CHR 0x00]
       @ [CHR 0x00, CHR 0x00, CHR 0x00, CHR 0x00]
     @ iend_chunk"

subsection \<open>The forward filter of the format\<close>

text \<open>
  The repository has no forward filter (its encoder writes filter type 0 only). The
  one below follows the format as the specification describes it: the Paeth predictor
  in the specification's words, the predictor of each filter type from the left, above
  and above-left reconstructed samples (zero at the start of a row and in the first
  row), and the filtered sample, the difference of the sample and its prediction
  modulo 256. A row is a list of pixels of \<open>ps\<close> samples each.
\<close>

definition fmt_paeth :: "int \<Rightarrow> int \<Rightarrow> int \<Rightarrow> int" where
  "fmt_paeth a b c =
     (if \<bar>a + b - c - a\<bar> \<le> \<bar>a + b - c - b\<bar> \<and> \<bar>a + b - c - a\<bar> \<le> \<bar>a + b - c - c\<bar> then a
      else if \<bar>a + b - c - b\<bar> \<le> \<bar>a + b - c - c\<bar> then b
      else c)"

definition fmt_predictor :: "nat \<Rightarrow> int \<Rightarrow> int \<Rightarrow> int \<Rightarrow> int" where
  "fmt_predictor t a b c =
     (if t = 0 then 0
      else if t = 1 then a
      else if t = 2 then b
      else if t = 3 then (a + b) div 2
      else fmt_paeth a b c)"

definition fmt_left :: "pixel list \<Rightarrow> nat \<Rightarrow> nat \<Rightarrow> int" where
  "fmt_left row i k = (if i = 0 then 0 else row ! (i - 1) ! k)"

definition fmt_above :: "pixel list option \<Rightarrow> nat \<Rightarrow> nat \<Rightarrow> int" where
  "fmt_above prior i k = (case prior of None \<Rightarrow> 0 | Some pr \<Rightarrow> pr ! i ! k)"

definition fmt_above_left :: "pixel list option \<Rightarrow> nat \<Rightarrow> nat \<Rightarrow> int" where
  "fmt_above_left prior i k =
     (if i = 0 then 0 else case prior of None \<Rightarrow> 0 | Some pr \<Rightarrow> pr ! (i - 1) ! k)"

definition forward_filter_row :: "nat \<Rightarrow> nat \<Rightarrow> pixel list \<Rightarrow> pixel list option \<Rightarrow> int list" where
  "forward_filter_row t ps row prior =
     concat (map (\<lambda>i. map (\<lambda>k.
         (row ! i ! k
            - fmt_predictor t (fmt_left row i k) (fmt_above prior i k) (fmt_above_left prior i k))
           mod 256) [0..<ps]) [0..<length row])"

definition forward_filter_line :: "nat \<Rightarrow> nat \<Rightarrow> pixel list \<Rightarrow> pixel list option \<Rightarrow> string" where
  "forward_filter_line t ps row prior =
     char_of t # map char_of (forward_filter_row t ps row prior)"

section \<open>What each stage leaves of the object\<close>

lemma Xpng_stages:
  "Xpng inflate c =
     (if c = [] then init c
      else if take 4 c \<noteq> png_magic then (init c)\<lparr>valid := 1\<rparr>
      else case stage_parse c of
             (Some e, s3) \<Rightarrow> s3
           | (None, s3) \<Rightarrow>
               (case stage_properties c of
                  (Some e, s4) \<Rightarrow> s4
                | (None, s4) \<Rightarrow>
                    (case stage_unfilter inflate c of
                       (Some e, s5) \<Rightarrow> s5
                     | (None, s5) \<Rightarrow> s5\<lparr>valid := 10\<rparr>)))"
proof -
  have m: "length png_magic = 4" by (simp add: png_magic_def)
  have i: "content (init c) = c" "(init c)\<lparr>valid := 1\<rparr>\<lparr>valid := 2\<rparr> = (init c)\<lparr>valid := 2\<rparr>"
    "content ((init c)\<lparr>valid := 1\<rparr>) = c"
    by (simp_all add: init_def)
  obtain r3 s3 where p: "stage_parse c = (r3, s3)" by (cases "stage_parse c")
  obtain r4 s4 where q: "stage_properties c = (r4, s4)" by (cases "stage_properties c")
  obtain r5 s5 where u: "stage_unfilter inflate c = (r5, s5)" by (cases "stage_unfilter inflate c")
  from p have p': "parse_chunks ((init c)\<lparr>valid := 2\<rparr>) = (r3, s3)" by (simp add: stage_parse_def)
  from q p have q': "properties (s3\<lparr>valid := 3\<rparr>) = (r4, s4)" by (simp add: stage_properties_def)
  from u q have u': "unfilter inflate (s4\<lparr>valid := 4\<rparr>) = (r5, s5)"
    by (simp add: stage_unfilter_def stage_header_def)
  show ?thesis
    by (cases r3; cases r4; cases r5)
       (simp_all add: Xpng_def check_validity_def Let_def m i p q u p' q' u')
qed

lemma parse_chunks_valid: "valid (snd (parse_chunks s)) = valid s"
  by (simp add: parse_chunks_def split: prod.splits)

lemma properties_valid: "valid (snd (properties s)) = valid s"
  by (simp add: properties_def split: sum.splits option.splits prod.splits)

lemma decompress_fields:
  "valid (snd (decompress inflate s)) = valid s"
  "pixels (snd (decompress inflate s)) = pixels s"
  "chunks (snd (decompress inflate s)) = chunks s"
  "colorType (snd (decompress inflate s)) = colorType s"
  "colorDepth (snd (decompress inflate s)) = colorDepth s"
  "width (snd (decompress inflate s)) = width s"
  "height (snd (decompress inflate s)) = height s"
  by (simp_all add: decompress_def Let_def split: sum.splits option.splits)

lemma unfilter_line_fields:
  "valid (snd (unfilter_line s line prior)) = valid s"
  "pixels (snd (unfilter_line s line prior)) = pixels s"
  "zlevel (snd (unfilter_line s line prior)) = zlevel s"
  "chunks (snd (unfilter_line s line prior)) = chunks s"
  "colorType (snd (unfilter_line s line prior)) = colorType s"
  "colorDepth (snd (unfilter_line s line prior)) = colorDepth s"
  "width (snd (unfilter_line s line prior)) = width s"
  "height (snd (unfilter_line s line prior)) = height s"
  by (simp_all add: unfilter_line_def Let_def split: list.splits sum.splits)

lemma unfilter_rows_fields:
  "valid (snd (unfilter_rows s filtered L ys prior)) = valid s
   \<and> zlevel (snd (unfilter_rows s filtered L ys prior)) = zlevel s
   \<and> chunks (snd (unfilter_rows s filtered L ys prior)) = chunks s
   \<and> colorType (snd (unfilter_rows s filtered L ys prior)) = colorType s
   \<and> colorDepth (snd (unfilter_rows s filtered L ys prior)) = colorDepth s
   \<and> width (snd (unfilter_rows s filtered L ys prior)) = width s
   \<and> height (snd (unfilter_rows s filtered L ys prior)) = height s"
proof (induction ys arbitrary: s prior)
  case Nil
  show ?case by simp
next
  case (Cons y ys)
  obtain r s' where r: "unfilter_line s (take L (drop (y * L) filtered)) prior = (r, s')"
    by (cases "unfilter_line s (take L (drop (y * L) filtered)) prior")
  from unfilter_line_fields [of s "take L (drop (y * L) filtered)" prior] r
  have f: "valid s' = valid s" "zlevel s' = zlevel s" "chunks s' = chunks s"
    "colorType s' = colorType s" "colorDepth s' = colorDepth s" "width s' = width s"
    "height s' = height s" by simp_all
  show ?case
  proof (cases r)
    case (Inl e)
    with r f show ?thesis by (simp add: Let_def)
  next
    case (Inr u)
    from Cons.IH [of "s'\<lparr>pixels := pixels s' @ [u]\<rparr>" "Some u"] Inr r f
    show ?thesis by (simp add: Let_def)
  qed
qed

lemma unfilter_valid: "valid (snd (unfilter inflate s)) = valid s"
proof (cases "pixel_size s")
  case (Inl e)
  then show ?thesis by (simp add: unfilter_def)
next
  case (Inr ps)
  obtain r s' where d: "decompress inflate s = (r, s')" by (cases "decompress inflate s")
  with decompress_fields(1) [of inflate s] have v: "valid s' = valid s" by simp
  show ?thesis
  proof (cases r)
    case (Inl e)
    with Inr d v show ?thesis by (simp add: unfilter_def Let_def)
  next
    case r: (Inr filtered)
    from unfilter_rows_fields [of s' filtered "line_size_of ps (width s)" "[0..<height s']" None]
      r Inr d v
    show ?thesis by (simp add: unfilter_def Let_def)
  qed
qed

lemma stage_valids:
  "valid (snd (stage_parse c)) = 2"
  "valid (snd (stage_properties c)) = 3"
  "valid (snd (stage_unfilter inflate c)) = 4"
  by (simp_all add: stage_parse_def stage_properties_def stage_unfilter_def stage_header_def
        parse_chunks_valid properties_valid unfilter_valid)

lemma valid_Xpng:
  "valid (Xpng inflate c) =
     (if c = [] then 0
      else if take 4 c \<noteq> png_magic then 1
      else if fst (stage_parse c) \<noteq> None then 2
      else if fst (stage_properties c) \<noteq> None then 3
      else if fst (stage_unfilter inflate c) \<noteq> None then 4
      else 10)"
proof -
  obtain r3 s3 where p: "stage_parse c = (r3, s3)" by (cases "stage_parse c")
  obtain r4 s4 where q: "stage_properties c = (r4, s4)" by (cases "stage_properties c")
  obtain r5 s5 where u: "stage_unfilter inflate c = (r5, s5)" by (cases "stage_unfilter inflate c")
  have "valid (snd (stage_parse c)) = 2" "valid (snd (stage_properties c)) = 3"
    "valid (snd (stage_unfilter inflate c)) = 4" by (rule stage_valids)+
  with p q u have v: "valid s3 = 2" "valid s4 = 3" "valid s5 = 4"
    by simp_all
  have i: "valid (init c) = 0" by (simp add: init_def)
  show ?thesis
    unfolding Xpng_stages p q u
    by (cases r3; cases r4; cases r5) (simp_all add: v init_def)
qed


lemma stage_pixels:
  "pixels (snd (stage_parse c)) = []"
  "pixels (snd (stage_properties c)) = []"
  "pixels (stage_header c) = []"
proof -
  show a: "pixels (snd (stage_parse c)) = []"
    by (simp add: stage_parse_def parse_chunks_def init_def split: prod.splits)
  show b: "pixels (snd (stage_properties c)) = []"
    using a by (simp add: stage_properties_def properties_def
        split: sum.splits option.splits prod.splits)
  show "pixels (stage_header c) = []"
    using b by (simp add: stage_header_def)
qed

lemma stage_zlevel: "zlevel (stage_header c) = 0"
  by (simp add: stage_header_def stage_properties_def properties_def stage_parse_def
        parse_chunks_def init_def split: sum.splits option.splits prod.splits)

lemma unfilter_decompress_fails:
  assumes "fst (decompress inflate s) = Inl e"
  shows "fst (unfilter inflate s) \<noteq> None \<and> pixels (snd (unfilter inflate s)) = pixels s"
proof (cases "pixel_size s")
  case (Inl e')
  then show ?thesis by (simp add: unfilter_def)
next
  case (Inr ps)
  obtain r s' where d: "decompress inflate s = (r, s')" by (cases "decompress inflate s")
  with assms have r: "r = Inl e" by simp
  from decompress_fields(2) [of inflate s] d have "pixels s' = pixels s" by simp
  with Inr d r show ?thesis by (simp add: unfilter_def Let_def)
qed

section \<open>Chunk lookup\<close>

lemma get_chunk_loop_filter:
  "k \<le> index \<Longrightarrow>
   get_chunk_loop cs name index k =
     (let ms = filter (\<lambda>c. chunk_name c = name) cs
      in if nat (index - k) < length ms then Some (ms ! nat (index - k)) else None)"
proof (induction cs arbitrary: k)
  case Nil
  then show ?case by simp
next
  case (Cons a cs)
  show ?case
  proof (cases "chunk_name a = name")
    case False
    with Cons show ?thesis by simp
  next
    case True
    show ?thesis
    proof (cases "k = index")
      case True
      with \<open>chunk_name a = name\<close> show ?thesis by simp
    next
      case False
      with Cons.prems have lt: "k + 1 \<le> index" by simp
      then have n: "nat (index - k) = Suc (nat (index - (k + 1)))" by simp
      from True False have "get_chunk_loop (a # cs) name index k = get_chunk_loop cs name index (k + 1)"
        by simp
      also have "\<dots> = (let ms = filter (\<lambda>c. chunk_name c = name) cs
          in if nat (index - (k + 1)) < length ms then Some (ms ! nat (index - (k + 1))) else None)"
        using lt by (rule Cons.IH)
      finally show ?thesis using True by (simp add: n Let_def)
    qed
  qed
qed

text \<open>
  C8. For every chunk sequence, name and index \<open>i \<ge> 0\<close>, \<^verbatim>\<open>_get_chunk\<close> returns the
  \<open>i\<close>-th chunk (counted from 0, in stream order) of that name, and None when fewer
  than \<open>i + 1\<close> chunks have the name; with two chunks of the name and index 1 it
  returns the second one.
\<close>

theorem get_chunk_ith:
  assumes "chunks s = Some cs" and "0 \<le> i"
  shows "get_chunk s name i =
           Inr (let ms = filter (\<lambda>c. chunk_name c = name) cs
                in if nat i < length ms then Some (ms ! nat i) else None)
         \<and> (filter (\<lambda>c. chunk_name c = name) cs = [c1, c2]
              \<longrightarrow> get_chunk s name 1 = Inr (Some c2))"
proof
  show "get_chunk s name i =
           Inr (let ms = filter (\<lambda>c. chunk_name c = name) cs
                in if nat i < length ms then Some (ms ! nat i) else None)"
    using assms get_chunk_loop_filter [of 0 i cs name] by (simp add: get_chunk_def Let_def)
  show "filter (\<lambda>c. chunk_name c = name) cs = [c1, c2]
          \<longrightarrow> get_chunk s name 1 = Inr (Some c2)"
    using assms(1) get_chunk_loop_filter [of 0 1 cs name] by (simp add: get_chunk_def Let_def)
qed

theorem get_chunk_ith_witness:
  "chunks ((init [])\<lparr>chunks := Some [Chunk 0 ''IDAT'' [] 5 8, Chunk 0 ''tEXt'' [] 6 20,
        Chunk 1 ''IDAT'' ''a'' 7 32]\<rparr>)
     = Some [Chunk 0 ''IDAT'' [] 5 8, Chunk 0 ''tEXt'' [] 6 20, Chunk 1 ''IDAT'' ''a'' 7 32]
   \<and> (0::int) \<le> 1
   \<and> get_chunk ((init [])\<lparr>chunks := Some [Chunk 0 ''IDAT'' [] 5 8, Chunk 0 ''tEXt'' [] 6 20,
        Chunk 1 ''IDAT'' ''a'' 7 32]\<rparr>) ''IDAT'' 1 = Inr (Some (Chunk 1 ''IDAT'' ''a'' 7 32))
   \<and> get_chunk ((init [])\<lparr>chunks := Some [Chunk 0 ''IDAT'' [] 5 8, Chunk 0 ''tEXt'' [] 6 20,
        Chunk 1 ''IDAT'' ''a'' 7 32]\<rparr>) ''IDAT'' 2 = Inr None"
  using get_chunk_ith [of "(init [])\<lparr>chunks := Some [Chunk 0 ''IDAT'' [] 5 8, Chunk 0 ''tEXt'' [] 6 20,
        Chunk 1 ''IDAT'' ''a'' 7 32]\<rparr>" "[Chunk 0 ''IDAT'' [] 5 8, Chunk 0 ''tEXt'' [] 6 20,
        Chunk 1 ''IDAT'' ''a'' 7 32]" 1 "''IDAT''" "Chunk 0 ''IDAT'' [] 5 8" "Chunk 1 ''IDAT'' ''a'' 7 32"]
    get_chunk_ith [of "(init [])\<lparr>chunks := Some [Chunk 0 ''IDAT'' [] 5 8, Chunk 0 ''tEXt'' [] 6 20,
        Chunk 1 ''IDAT'' ''a'' 7 32]\<rparr>" "[Chunk 0 ''IDAT'' [] 5 8, Chunk 0 ''tEXt'' [] 6 20,
        Chunk 1 ''IDAT'' ''a'' 7 32]" 2 "''IDAT''" "Chunk 0 ''IDAT'' [] 5 8" "Chunk 1 ''IDAT'' ''a'' 7 32"]
  by simp

section \<open>The Paeth predictor\<close>

text \<open>
  C5. With \<open>p = a + b - c\<close>, \<open>pa = |p - a|\<close>, \<open>pb = |p - b|\<close> and \<open>pc = |p - c|\<close>, the
  predictor returns \<open>a\<close> if \<open>pa \<le> pb\<close> and \<open>pa \<le> pc\<close>, else \<open>b\<close> if \<open>pb \<le> pc\<close>, else
  \<open>c\<close>; so it returns \<open>a\<close> when the three are equal and when \<open>pa = pb < pc\<close>, and \<open>b\<close>
  when \<open>pb = pc < pa\<close>.
\<close>

theorem paeth_order:
  "paeth a b c =
     (if \<bar>a + b - c - a\<bar> \<le> \<bar>a + b - c - b\<bar> \<and> \<bar>a + b - c - a\<bar> \<le> \<bar>a + b - c - c\<bar> then a
      else if \<bar>a + b - c - b\<bar> \<le> \<bar>a + b - c - c\<bar> then b else c)
   \<and> paeth a a a = a
   \<and> (\<bar>a + b - c - a\<bar> = \<bar>a + b - c - b\<bar> \<and> \<bar>a + b - c - b\<bar> < \<bar>a + b - c - c\<bar>
        \<longrightarrow> paeth a b c = a)
   \<and> (\<bar>a + b - c - b\<bar> = \<bar>a + b - c - c\<bar> \<and> \<bar>a + b - c - c\<bar> < \<bar>a + b - c - a\<bar>
        \<longrightarrow> paeth a b c = b)"
  by (simp add: paeth_def Let_def)

theorem paeth_order_witness:
  "\<bar>(1::int) + 1 - 0 - 1\<bar> = \<bar>1 + 1 - 0 - 1\<bar> \<and> \<bar>(1::int) + 1 - 0 - 1\<bar> < \<bar>1 + 1 - 0 - 0\<bar>
   \<and> paeth 1 1 0 = 1
   \<and> \<bar>(0::int) + 3 - 1 - 3\<bar> = \<bar>0 + 3 - 1 - 1\<bar> \<and> \<bar>(0::int) + 3 - 1 - 1\<bar> < \<bar>0 + 3 - 1 - 0\<bar>
   \<and> paeth 0 3 1 = 3"
  using paeth_order [of 1 1 0] paeth_order [of 0 3 1] by simp

section \<open>Staged degradation\<close>

text \<open>
  C1, as the code has it. Construction always returns an object, and its \<open>valid\<close> is 0
  for an empty content, 1 for a non-empty content that does not start with the four
  bytes \<^verbatim>\<open>\x89PNG\<close> (the other four bytes of the signature are not looked at), 2 when
  chunk parsing raises, 3 when header extraction raises, 4 when decompression or
  defiltering raises, and 10 when every stage succeeds. When it is the decompression
  that raises, \<open>valid\<close> is 4 and the pixel grid stays empty.
\<close>

theorem staged_degradation:
  "valid (Xpng inflate c) =
     (if c = [] then 0
      else if take 4 c \<noteq> png_magic then 1
      else if fst (stage_parse c) \<noteq> None then 2
      else if fst (stage_properties c) \<noteq> None then 3
      else if fst (stage_unfilter inflate c) \<noteq> None then 4
      else 10)
   \<and> (take 4 c = png_magic \<and> fst (stage_parse c) = None \<and> fst (stage_properties c) = None
        \<and> (\<exists>e. fst (decompress inflate (stage_header c)) = Inl e)
       \<longrightarrow> valid (Xpng inflate c) = 4 \<and> pixels (Xpng inflate c) = [])"
proof (intro conjI impI)
  show "valid (Xpng inflate c) =
     (if c = [] then 0
      else if take 4 c \<noteq> png_magic then 1
      else if fst (stage_parse c) \<noteq> None then 2
      else if fst (stage_properties c) \<noteq> None then 3
      else if fst (stage_unfilter inflate c) \<noteq> None then 4
      else 10)" by (rule valid_Xpng)
next
  assume a: "take 4 c = png_magic \<and> fst (stage_parse c) = None \<and> fst (stage_properties c) = None
        \<and> (\<exists>e. fst (decompress inflate (stage_header c)) = Inl e)"
  then obtain e where e: "fst (decompress inflate (stage_header c)) = Inl e" by blast
  from a have ne: "c \<noteq> []" by (auto simp: png_magic_def)
  from unfilter_decompress_fails [OF e]
  have u: "fst (stage_unfilter inflate c) \<noteq> None" "pixels (snd (stage_unfilter inflate c)) = []"
    by (simp_all add: stage_unfilter_def stage_pixels)
  from a ne u(1) show "valid (Xpng inflate c) = 4" by (simp add: valid_Xpng)
  obtain r3 s3 where p: "stage_parse c = (r3, s3)" by (cases "stage_parse c")
  obtain r4 s4 where q: "stage_properties c = (r4, s4)" by (cases "stage_properties c")
  obtain r5 s5 where v: "stage_unfilter inflate c = (r5, s5)" by (cases "stage_unfilter inflate c")
  from a ne u p q v show "pixels (Xpng inflate c) = []"
    by (cases r5) (simp_all add: Xpng_stages)
qed


theorem staged_degradation_witness:
  "take 4 png_corrupt = png_magic \<and> fst (stage_parse png_corrupt) = None
   \<and> fst (stage_properties png_corrupt) = None
   \<and> fst (decompress stored_inflate (stage_header png_corrupt)) = Inl ZlibError
   \<and> valid (Xpng stored_inflate png_corrupt) = 4 \<and> pixels (Xpng stored_inflate png_corrupt) = []"
proof -
  have h1: "take 4 png_corrupt = png_magic" by code_simp
  have h2: "fst (stage_parse png_corrupt) = None" by code_simp
  have h3: "fst (stage_properties png_corrupt) = None" by code_simp
  have h4: "fst (decompress stored_inflate (stage_header png_corrupt)) = Inl ZlibError"
    by code_simp
  from h4 have h5: "\<exists>e. fst (decompress stored_inflate (stage_header png_corrupt)) = Inl e" ..
  have "valid (Xpng stored_inflate png_corrupt) = 4 \<and> pixels (Xpng stored_inflate png_corrupt) = []"
    using staged_degradation [of stored_inflate png_corrupt] h1 h2 h3 h5 by blast
  with h1 h2 h3 h4 show ?thesis by blast
qed

text \<open>
  The claim as stated fails: a content that lacks the 8-byte signature, but starts
  with its first four bytes, is decoded to the end.
\<close>

theorem signature_check_counterexample:
  "png_badsig \<noteq> [] \<and> take 8 png_badsig \<noteq> png_signature
   \<and> valid (Xpng stored_inflate png_badsig) = 10"
  by code_simp

section \<open>The level hint and a rejected stream\<close>

lemma decompress_inflate_fails:
  assumes "decompress_loop s [] 0 = Inr compressed" and "1 < length compressed"
    and "inflate compressed = None"
  shows "decompress inflate s = (Inl ZlibError, s\<lparr>zlevel := of_char (compressed ! 1) div 64\<rparr>)"
  using assms by (simp add: decompress_def Let_def)

text \<open>
  C10. \<^verbatim>\<open>_decompress\<close> stores the level hint, the second byte of the concatenated IDAT
  stream shifted right by 6, before it calls the codec: when the codec rejects the
  stream, construction ends with \<open>valid = 4\<close> and the hint is in \<open>zlevel\<close>, where
  \<^verbatim>\<open>zlibCompression\<close> reads it.
\<close>

theorem zlevel_before_inflate:
  assumes "take 4 c = png_magic" and "fst (stage_parse c) = None"
    and "fst (stage_properties c) = None" and "pixel_size (stage_header c) = Inr ps"
    and "decompress_loop (stage_header c) [] 0 = Inr compressed"
    and "1 < length compressed" and "inflate compressed = None"
  shows "decompress inflate (stage_header c) =
           (Inl ZlibError, (stage_header c)\<lparr>zlevel := of_char (compressed ! 1) div 64\<rparr>)
         \<and> valid (Xpng inflate c) = 4
         \<and> zlevel (Xpng inflate c) = of_char (compressed ! 1) div 64
         \<and> zlibCompression (Xpng inflate c) = 11 + of_char (compressed ! 1) div 64"
proof -
  let ?s = "stage_header c"
  let ?z = "of_char (compressed ! 1) div 64 :: nat"
  have d: "decompress inflate ?s = (Inl ZlibError, ?s\<lparr>zlevel := ?z\<rparr>)"
    using assms(5-7) by (rule decompress_inflate_fails)
  from assms(1) have ne: "c \<noteq> []" by (auto simp: png_magic_def)
  have u: "fst (stage_unfilter inflate c) \<noteq> None"
    using unfilter_decompress_fails [of inflate ?s ZlibError] d by (simp add: stage_unfilter_def)
  have v: "valid (Xpng inflate c) = 4"
    using assms(1-3) ne u by (simp add: valid_Xpng)
  have zu: "zlevel (snd (stage_unfilter inflate c)) = ?z"
    using d assms(4) by (simp add: stage_unfilter_def unfilter_def Let_def)
  obtain r3 s3 where p: "stage_parse c = (r3, s3)" by (cases "stage_parse c")
  obtain r4 s4 where q: "stage_properties c = (r4, s4)" by (cases "stage_properties c")
  obtain r5 s5 where w: "stage_unfilter inflate c = (r5, s5)" by (cases "stage_unfilter inflate c")
  from assms(1-3) ne u p q w zu have z: "zlevel (Xpng inflate c) = ?z"
    by (cases r5) (simp_all add: Xpng_stages)
  from d v z show ?thesis by (simp add: zlibCompression_def)
qed


theorem zlevel_before_inflate_witness:
  "take 4 png_corrupt = png_magic \<and> fst (stage_parse png_corrupt) = None
   \<and> fst (stage_properties png_corrupt) = None
   \<and> pixel_size (stage_header png_corrupt) = Inr 1
   \<and> decompress_loop (stage_header png_corrupt) [] 0 = Inr [CHR 0x78, CHR 0xDA, CHR 0xFF]
   \<and> 1 < length [CHR 0x78, CHR 0xDA, CHR 0xFF]
   \<and> stored_inflate [CHR 0x78, CHR 0xDA, CHR 0xFF] = None
   \<and> zlevel (init png_corrupt) = 0
   \<and> valid (Xpng stored_inflate png_corrupt) = 4
   \<and> zlevel (Xpng stored_inflate png_corrupt) = 3
   \<and> zlibCompression (Xpng stored_inflate png_corrupt) = 14"
proof -
  have h1: "take 4 png_corrupt = png_magic" by code_simp
  have h2: "fst (stage_parse png_corrupt) = None" by code_simp
  have h3: "fst (stage_properties png_corrupt) = None" by code_simp
  have h4: "pixel_size (stage_header png_corrupt) = Inr 1" by code_simp
  have h5: "decompress_loop (stage_header png_corrupt) [] 0 = Inr [CHR 0x78, CHR 0xDA, CHR 0xFF]"
    by code_simp
  have h6: "1 < length [CHR 0x78, CHR 0xDA, CHR 0xFF]" by simp
  have h7: "stored_inflate [CHR 0x78, CHR 0xDA, CHR 0xFF] = None" by code_simp
  have h8: "zlevel (init png_corrupt) = 0" by (simp add: init_def)
  have z: "(of_char ([CHR 0x78, CHR 0xDA, CHR 0xFF] ! 1) :: nat) div 64 = 3" by simp
  from zlevel_before_inflate [where c = png_corrupt and inflate = stored_inflate
      and compressed = "[CHR 0x78, CHR 0xDA, CHR 0xFF]", OF h1 h2 h3 h4 h5 h6 h7]
  have "valid (Xpng stored_inflate png_corrupt) = 4
     \<and> zlevel (Xpng stored_inflate png_corrupt) = 3
     \<and> zlibCompression (Xpng stored_inflate png_corrupt) = 14"
    unfolding z by simp
  with h1 h2 h3 h4 h5 h6 h7 h8 show ?thesis by blast
qed

section \<open>A filter-type tag outside 0 to 4\<close>

lemma unfilter_line_bad_tag:
  assumes "4 < (of_char t :: nat)"
  shows "\<exists>e. fst (unfilter_line s (t # data) prior) = Inl e"
proof (cases "pixel_size (s\<lparr>filters_used := insert (of_char t) (filters_used s)\<rparr>)")
  case (Inl e)
  then show ?thesis by (simp add: unfilter_line_def Let_def)
next
  case (Inr r)
  with assms show ?thesis by (simp add: unfilter_line_def Let_def)
qed

lemma unfilter_rows_bad_tag:
  assumes "y \<in> set ys" and "y * L < length filtered" and "0 < L"
    and "4 < (of_char (filtered ! (y * L)) :: nat)"
  shows "fst (unfilter_rows s filtered L ys prior) \<noteq> None"
  using assms(1)
proof (induction ys arbitrary: s prior)
  case Nil
  then show ?case by simp
next
  case (Cons z zs)
  let ?line = "take L (drop (z * L) filtered)"
  obtain r s' where r: "unfilter_line s ?line prior = (r, s')"
    by (cases "unfilter_line s ?line prior")
  show ?case
  proof (cases r)
    case (Inl e)
    with r show ?thesis by (simp add: Let_def)
  next
    case (Inr u)
    have "z \<noteq> y"
    proof
      assume zy: "z = y"
      from assms(2,3) obtain rest where l: "take L (drop (y * L) filtered) = filtered ! (y * L) # rest"
        by (cases L) (simp_all add: Cons_nth_drop_Suc [symmetric])
      from unfilter_line_bad_tag [OF assms(4), of s rest prior] r Inr zy l
      show False by simp
    qed
    with Cons.prems have "y \<in> set zs" by simp
    from Cons.IH [OF this] r Inr show ?thesis by (simp add: Let_def)
  qed
qed

text \<open>
  C7. A scanline whose first byte is outside 0 to 4 makes \<^verbatim>\<open>_unfilter_line\<close> raise
  (the index into its table of five filters is out of range); when construction
  reaches such a scanline in any row, the error is caught and \<open>valid\<close> stays 4.
\<close>

theorem invalid_filter_type:
  "(4 < (of_char t :: nat) \<longrightarrow> (\<exists>e. fst (unfilter_line s (t # data) prior) = Inl e))
   \<and> (take 4 c = png_magic \<and> fst (stage_parse c) = None \<and> fst (stage_properties c) = None
        \<and> pixel_size (stage_header c) = Inr ps
        \<and> fst (decompress inflate (stage_header c)) = Inr filtered
        \<and> y < height (stage_header c)
        \<and> y * line_size_of ps (width (stage_header c)) < length filtered
        \<and> 4 < (of_char (filtered ! (y * line_size_of ps (width (stage_header c)))) :: nat)
       \<longrightarrow> valid (Xpng inflate c) = 4)"
proof (intro conjI impI)
  assume "4 < (of_char t :: nat)"
  then show "\<exists>e. fst (unfilter_line s (t # data) prior) = Inl e"
    by (rule unfilter_line_bad_tag)
next
  let ?s = "stage_header c"
  let ?L = "line_size_of ps (width ?s)"
  assume a: "take 4 c = png_magic \<and> fst (stage_parse c) = None \<and> fst (stage_properties c) = None
        \<and> pixel_size ?s = Inr ps
        \<and> fst (decompress inflate ?s) = Inr filtered
        \<and> y < height ?s
        \<and> y * ?L < length filtered
        \<and> 4 < (of_char (filtered ! (y * ?L)) :: nat)"
  obtain s' where d: "decompress inflate ?s = (Inr filtered, s')"
    using a by (cases "decompress inflate ?s") simp
  from decompress_fields(7) [of inflate ?s] d have h: "height s' = height ?s" by simp
  from a h have y: "y \<in> set [0..<height s']" by simp
  have L: "0 < ?L" by (simp add: line_size_of_def)
  from a have "fst (unfilter_rows s' filtered ?L [0..<height s'] None) \<noteq> None"
    by (intro unfilter_rows_bad_tag [OF y _ L]) simp_all
  with a d have u: "fst (stage_unfilter inflate c) \<noteq> None"
    by (simp add: stage_unfilter_def unfilter_def Let_def)
  from a have ne: "c \<noteq> []" by (auto simp: png_magic_def)
  from a ne u show "valid (Xpng inflate c) = 4" by (simp add: valid_Xpng)
qed

theorem invalid_filter_type_witness:
  "4 < (of_char (CHR 0x05) :: nat)
   \<and> fst (unfilter_line (init []) [CHR 0x05, CHR 0x03] None) = Inl IndexError
   \<and> take 4 png_badfilter = png_magic \<and> fst (stage_parse png_badfilter) = None
   \<and> fst (stage_properties png_badfilter) = None
   \<and> pixel_size (stage_header png_badfilter) = Inr 1
   \<and> fst (decompress stored_inflate (stage_header png_badfilter))
        = Inr [CHR 0x00, CHR 0x07, CHR 0x05, CHR 0x03]
   \<and> 1 < height (stage_header png_badfilter)
   \<and> 1 * line_size_of 1 (width (stage_header png_badfilter))
        < length [CHR 0x00, CHR 0x07, CHR 0x05, CHR 0x03]
   \<and> 4 < (of_char ([CHR 0x00, CHR 0x07, CHR 0x05, CHR 0x03]
              ! (1 * line_size_of 1 (width (stage_header png_badfilter)))) :: nat)
   \<and> valid (Xpng stored_inflate png_badfilter) = 4"
proof -
  have g1: "4 < (of_char (CHR 0x05) :: nat)" by simp
  have g2: "fst (unfilter_line (init []) [CHR 0x05, CHR 0x03] None) = Inl IndexError"
    by code_simp
  have h1: "take 4 png_badfilter = png_magic" by code_simp
  have h2: "fst (stage_parse png_badfilter) = None" by code_simp
  have h3: "fst (stage_properties png_badfilter) = None" by code_simp
  have h4: "pixel_size (stage_header png_badfilter) = Inr 1" by code_simp
  have h5: "fst (decompress stored_inflate (stage_header png_badfilter))
        = Inr [CHR 0x00, CHR 0x07, CHR 0x05, CHR 0x03]" by code_simp
  have h6: "1 < height (stage_header png_badfilter)" by code_simp
  have l: "line_size_of 1 (width (stage_header png_badfilter)) = 2" by code_simp
  have h7: "1 * line_size_of 1 (width (stage_header png_badfilter))
        < length [CHR 0x00, CHR 0x07, CHR 0x05, CHR 0x03]" unfolding l by simp
  have h8: "4 < (of_char ([CHR 0x00, CHR 0x07, CHR 0x05, CHR 0x03]
              ! (1 * line_size_of 1 (width (stage_header png_badfilter)))) :: nat)"
    unfolding l by simp
  have "valid (Xpng stored_inflate png_badfilter) = 4"
    using invalid_filter_type [where c = png_badfilter and inflate = stored_inflate and ps = 1
        and filtered = "[CHR 0x00, CHR 0x07, CHR 0x05, CHR 0x03]" and y = 1]
      h1 h2 h3 h4 h5 h6 h7 h8 by blast
  with g1 g2 h1 h2 h3 h4 h5 h6 h7 h8 show ?thesis by blast
qed

section \<open>Pixel queries\<close>

lemma py_nth_in_range:
  "0 \<le> i \<Longrightarrow> i < int (length xs) \<Longrightarrow> py_nth xs i = Inr (xs ! nat i)"
  by (simp add: py_nth_def)

lemma py_nth_above:
  "int (length xs) \<le> i \<Longrightarrow> py_nth xs i = Inl IndexError"
  by (simp add: py_nth_def)

text \<open>
  C9, as the code has it. For an image of bit depth 8 and colour type 0 or 4,
  \<^verbatim>\<open>getPixelRgb\<close> returns None at every coordinate inside the pixel grid; the pixel is
  read before the colour type is looked at, so a coordinate past the grid raises
  IndexError.
\<close>

theorem getPixelRgb_gray:
  assumes "colorDepth s = 8" and "colorType s = 0 \<or> colorType s = 4"
  shows "(0 \<le> y \<and> y < int (length (pixels s)) \<and> 0 \<le> x \<and> x < int (length (pixels s ! nat y))
            \<longrightarrow> getPixelRgb s x y = Inr None)
         \<and> (int (length (pixels s)) \<le> y \<longrightarrow> getPixelRgb s x y = Inl IndexError)
         \<and> (0 \<le> y \<and> y < int (length (pixels s)) \<and> int (length (pixels s ! nat y)) \<le> x
            \<longrightarrow> getPixelRgb s x y = Inl IndexError)"
  using assms by (auto simp: getPixelRgb_def py_nth_in_range py_nth_above)

theorem getPixelRgb_gray_witness:
  "colorDepth (Xpng stored_inflate png_gray) = 8
   \<and> colorType (Xpng stored_inflate png_gray) = 0
   \<and> pixels (Xpng stored_inflate png_gray) = [[[7]], [[3]]]
   \<and> getPixelRgb (Xpng stored_inflate png_gray) 0 1 = Inr None
   \<and> getPixelRgb (Xpng stored_inflate png_gray) 0 2 = Inl IndexError"
proof -
  let ?s = "Xpng stored_inflate png_gray"
  have h1: "colorDepth ?s = 8" by code_simp
  have h2: "colorType ?s = 0" by code_simp
  have h3: "pixels ?s = [[[7]], [[3]]]" by code_simp
  from h2 have h2': "colorType ?s = 0 \<or> colorType ?s = 4" ..
  have "getPixelRgb ?s 0 1 = Inr None"
    using getPixelRgb_gray [OF h1 h2', of 1 0] by (simp add: h3)
  moreover have "getPixelRgb ?s 0 2 = Inl IndexError"
    using getPixelRgb_gray [OF h1 h2', of 2 0] by (simp add: h3)
  ultimately show ?thesis using h1 h2 h3 by blast
qed

text \<open>
  The claim as stated fails: on a decoded 8-bit grayscale image of one column and two
  rows, the query at column 5 raises instead of returning None.
\<close>

theorem getPixelRgb_gray_counterexample:
  "valid (Xpng stored_inflate png_gray) = 10
   \<and> colorDepth (Xpng stored_inflate png_gray) = 8
   \<and> colorType (Xpng stored_inflate png_gray) = 0
   \<and> getPixelRgb (Xpng stored_inflate png_gray) 5 0 = Inl IndexError"
  by code_simp

section \<open>Looking for a colour\<close>

lemma getPixelRgb_rgb:
  assumes "colorDepth s = 8" and "colorType s = 2"
    and "y < length (pixels s)" and "x < length (pixels s ! y)"
  shows "getPixelRgb s (int x) (int y) = Inr (Some (pixels s ! y ! x))"
  using assms by (simp add: getPixelRgb_def py_nth_in_range)

lemma getPixelRgb_rgba:
  assumes "colorDepth s = 8" and "colorType s = 6"
    and "y < length (pixels s)" and "x < length (pixels s ! y)"
  shows "getPixelRgb s (int x) (int y) = Inr (Some (take 3 (pixels s ! y ! x)))"
  using assms by (simp add: getPixelRgb_def py_nth_in_range)

lemma in_concat_nth:
  "v \<in> set (concat xss) \<longleftrightarrow> (\<exists>y<length xss. \<exists>x<length (xss ! y). xss ! y ! x = v)"
proof
  assume "v \<in> set (concat xss)"
  then obtain xs where "xs \<in> set xss" "v \<in> set xs" by auto
  then obtain y x where "y < length xss" "xss ! y = xs" "x < length xs" "xs ! x = v"
    by (auto simp: in_set_conv_nth)
  then show "\<exists>y<length xss. \<exists>x<length (xss ! y). xss ! y ! x = v" by blast
next
  assume "\<exists>y<length xss. \<exists>x<length (xss ! y). xss ! y ! x = v"
  then obtain y x where yx: "y < length xss" "x < length (xss ! y)" "xss ! y ! x = v" by blast
  then have "xss ! y \<in> set xss" "v \<in> set (xss ! y)" by (auto simp: in_set_conv_nth)
  then show "v \<in> set (concat xss)" by auto
qed

lemma take3_nth:
  "3 \<le> length p \<Longrightarrow> [p ! 0, p ! 1, p ! 2] = take 3 (p :: int list)"
  by (cases p; simp; cases "tl p"; simp; cases "tl (tl p)"; simp)

text \<open>
  C6, as the code has it. \<^verbatim>\<open>hasColor\<close> returns False when the bit depth is not 8.
  For RGB, and for RGBA with the alpha sample dropped, it returns whether some pixel
  of the grid projects to the target. For an indexed image it returns whether the
  target is an entry of the palette, used by a pixel or not.
\<close>

theorem hasColor_meaning:
  "(colorDepth s \<noteq> 8 \<longrightarrow> hasColor s color = Inr (Some False))
   \<and> (colorDepth s = 8 \<and> colorType s = 2 \<longrightarrow>
        hasColor s color =
          Inr (Some (\<exists>y<length (pixels s). \<exists>x<length (pixels s ! y).
                       getPixelRgb s (int x) (int y) = Inr (Some color))))
   \<and> (colorDepth s = 8 \<and> colorType s = 6 \<and> list_all (\<lambda>p. 3 \<le> length p) (concat (pixels s)) \<longrightarrow>
        hasColor s color =
          Inr (Some (\<exists>y<length (pixels s). \<exists>x<length (pixels s ! y).
                       getPixelRgb s (int x) (int y) = Inr (Some color))))
   \<and> (colorDepth s = 8 \<and> colorType s = 3 \<and> getPaletteColors s = Inr palette \<longrightarrow>
        hasColor s color = Inr (Some (color \<in> set palette)))"
proof (intro conjI impI)
  assume "colorDepth s \<noteq> 8"
  then show "hasColor s color = Inr (Some False)" by (simp add: hasColor_def)
next
  assume a: "colorDepth s = 8 \<and> colorType s = 2"
  then have "hasColor s color = Inr (Some (color \<in> set (concat (pixels s))))"
    by (simp add: hasColor_def)
  also have "color \<in> set (concat (pixels s)) \<longleftrightarrow>
      (\<exists>y<length (pixels s). \<exists>x<length (pixels s ! y).
         getPixelRgb s (int x) (int y) = Inr (Some color))"
  proof
    assume "color \<in> set (concat (pixels s))"
    then obtain y x where "y < length (pixels s)" "x < length (pixels s ! y)"
      "pixels s ! y ! x = color" unfolding in_concat_nth by blast
    with a show "\<exists>y<length (pixels s). \<exists>x<length (pixels s ! y).
         getPixelRgb s (int x) (int y) = Inr (Some color)"
      using getPixelRgb_rgb [of s y x] by blast
  next
    assume "\<exists>y<length (pixels s). \<exists>x<length (pixels s ! y).
         getPixelRgb s (int x) (int y) = Inr (Some color)"
    then obtain y x where yx: "y < length (pixels s)" "x < length (pixels s ! y)"
      "getPixelRgb s (int x) (int y) = Inr (Some color)" by blast
    with a have "pixels s ! y ! x = color" by (simp add: getPixelRgb_rgb)
    with yx show "color \<in> set (concat (pixels s))" unfolding in_concat_nth by blast
  qed
  finally show "hasColor s color =
          Inr (Some (\<exists>y<length (pixels s). \<exists>x<length (pixels s ! y).
                       getPixelRgb s (int x) (int y) = Inr (Some color)))" .
next
  assume a: "colorDepth s = 8 \<and> colorType s = 6 \<and> list_all (\<lambda>p. 3 \<le> length p) (concat (pixels s))"
  then have l: "\<And>p. p \<in> set (concat (pixels s)) \<Longrightarrow> 3 \<le> length p"
    by (auto simp: list_all_iff)
  have m: "map (\<lambda>x. [x ! 0, x ! 1, x ! 2]) (concat (pixels s)) = map (take 3) (concat (pixels s))"
  proof (rule map_cong [OF refl])
    fix x assume "x \<in> set (concat (pixels s))"
    then have "3 \<le> length x" by (rule l)
    then show "[x ! 0, x ! 1, x ! 2] = take 3 x" by (rule take3_nth)
  qed
  from a have "hasColor s color =
      Inr (Some (color \<in> set (map (\<lambda>x. [x ! 0, x ! 1, x ! 2]) (concat (pixels s)))))"
    unfolding hasColor_def by simp
  also have "set (map (\<lambda>x. [x ! 0, x ! 1, x ! 2]) (concat (pixels s)))
      = take 3 ` set (concat (pixels s))"
    unfolding m by simp
  also have "color \<in> take 3 ` set (concat (pixels s)) \<longleftrightarrow>
      (\<exists>y<length (pixels s). \<exists>x<length (pixels s ! y).
         getPixelRgb s (int x) (int y) = Inr (Some color))"
  proof
    assume "color \<in> take 3 ` set (concat (pixels s))"
    then obtain v where "v \<in> set (concat (pixels s))" "color = take 3 v" by blast
    then obtain y x where "y < length (pixels s)" "x < length (pixels s ! y)" "pixels s ! y ! x = v"
      unfolding in_concat_nth by blast
    with a \<open>color = take 3 v\<close> show "\<exists>y<length (pixels s). \<exists>x<length (pixels s ! y).
         getPixelRgb s (int x) (int y) = Inr (Some color)"
      using getPixelRgb_rgba [of s y x] by blast
  next
    assume "\<exists>y<length (pixels s). \<exists>x<length (pixels s ! y).
         getPixelRgb s (int x) (int y) = Inr (Some color)"
    then obtain y x where yx: "y < length (pixels s)" "x < length (pixels s ! y)"
      "getPixelRgb s (int x) (int y) = Inr (Some color)" by blast
    with a have "color = take 3 (pixels s ! y ! x)" by (simp add: getPixelRgb_rgba)
    moreover from yx have "pixels s ! y ! x \<in> set (concat (pixels s))"
      unfolding in_concat_nth by blast
    ultimately show "color \<in> take 3 ` set (concat (pixels s))" by blast
  qed
  finally show "hasColor s color =
          Inr (Some (\<exists>y<length (pixels s). \<exists>x<length (pixels s ! y).
                       getPixelRgb s (int x) (int y) = Inr (Some color)))" .
next
  assume "colorDepth s = 8 \<and> colorType s = 3 \<and> getPaletteColors s = Inr palette"
  then show "hasColor s color = Inr (Some (color \<in> set palette))"
    by (simp add: hasColor_def)
qed

theorem hasColor_meaning_witness:
  "colorDepth (Xpng stored_inflate png_indexed) = 8
   \<and> colorType (Xpng stored_inflate png_indexed) = 3
   \<and> getPaletteColors (Xpng stored_inflate png_indexed) = Inr [[10, 20, 30], [1, 2, 3]]
   \<and> hasColor (Xpng stored_inflate png_indexed) [10, 20, 30] = Inr (Some True)
   \<and> hasColor (Xpng stored_inflate png_indexed) [9, 9, 9] = Inr (Some False)"
proof -
  let ?s = "Xpng stored_inflate png_indexed"
  have h1: "colorDepth ?s = 8" by code_simp
  have h2: "colorType ?s = 3" by code_simp
  have h3: "getPaletteColors ?s = Inr [[10, 20, 30], [1, 2, 3]]" by code_simp
  have "hasColor ?s [10, 20, 30] = Inr (Some True)"
    using hasColor_meaning [of ?s "[10, 20, 30]" "[[10, 20, 30], [1, 2, 3]]"] h1 h2 h3 by simp
  moreover have "hasColor ?s [9, 9, 9] = Inr (Some False)"
    using hasColor_meaning [of ?s "[9, 9, 9]" "[[10, 20, 30], [1, 2, 3]]"] h1 h2 h3 by simp
  ultimately show ?thesis using h1 h2 h3 by blast
qed

text \<open>
  The claim as stated fails for an indexed image: the only pixel of this decoded image
  projects to (10, 20, 30), and \<^verbatim>\<open>hasColor\<close> answers True for (1, 2, 3), an entry of the
  palette that no pixel uses.
\<close>

theorem hasColor_palette_counterexample:
  "valid (Xpng stored_inflate png_indexed) = 10
   \<and> pixels (Xpng stored_inflate png_indexed) = [[[0]]]
   \<and> getPixelRgb (Xpng stored_inflate png_indexed) 0 0 = Inr (Some [10, 20, 30])
   \<and> hasColor (Xpng stored_inflate png_indexed) [1, 2, 3] = Inr (Some True)"
  by code_simp

section \<open>Unfiltering inverts the forward filter\<close>

lemma paeth_fmt: "paeth a b c = fmt_paeth a b c"
  by (simp add: paeth_def fmt_paeth_def Let_def)

lemma filter_table_nth:
  assumes "t \<le> 4" and "length a = ps" and "length b = ps" and "length c = ps"
    and "length x = ps" and "\<forall>v\<in>set x. 0 \<le> v \<and> v < 256"
  shows "length (([type0, type1, type2, type3, type4] ! t) a b c x) = ps
       \<and> (\<forall>k<ps. ([type0, type1, type2, type3, type4] ! t) a b c x ! k
                    = (fmt_predictor t (a ! k) (b ! k) (c ! k) + x ! k) mod 256)"
proof -
  from assms(1) consider "t = 0" | "t = 1" | "t = 2" | "t = 3" | "t = 4" by linarith
  then show ?thesis
  proof cases
    case 1
    with assms show ?thesis by (simp add: type0_def fmt_predictor_def)
  next
    case 2
    with assms show ?thesis by (simp add: type1_def fmt_predictor_def)
  next
    case 3
    with assms show ?thesis by (simp add: type2_def fmt_predictor_def)
  next
    case 4
    with assms show ?thesis by (simp add: type3_def fmt_predictor_def)
  next
    case 5
    with assms show ?thesis by (simp add: type4_def fmt_predictor_def paeth_fmt)
  qed
qed


lemma length_concat_uniform:
  "\<forall>xs\<in>set xss. length xs = ps \<Longrightarrow> length (concat xss) = ps * length xss"
  by (induction xss) simp_all

lemma concat_slice:
  "\<forall>xs\<in>set xss. length xs = ps \<Longrightarrow> i < length xss \<Longrightarrow>
     take ps (drop (i * ps) (concat xss)) = xss ! i"
proof (induction xss arbitrary: i)
  case Nil
  then show ?case by simp
next
  case (Cons a xss)
  show ?case
  proof (cases i)
    case 0
    with Cons.prems show ?thesis by simp
  next
    case (Suc j)
    with Cons.prems have "take ps (drop (j * ps) (concat xss)) = xss ! j"
      by (intro Cons.IH) simp_all
    with Suc Cons.prems show ?thesis by simp
  qed
qed

lemma unfilter_pixels_inverse:
  assumes n: "n = length row" and P: "n \<le> length P"
    and step: "\<And>i. i < n \<Longrightarrow>
       f (if i = 0 then z else row ! (i - 1)) (P ! i) (if i = 0 then z else P ! (i - 1))
         (map of_char (take ps (drop (i * ps) data))) = row ! i"
  shows "k \<le> n \<Longrightarrow>
     unfilter_pixels f ps data P [k..<n] (if k = 0 then z else row ! (k - 1))
       (if k = 0 then z else P ! (k - 1)) (take k row) = Inr row"
proof (induction "n - k" arbitrary: k)
  case 0
  with n show ?case by simp
next
  case (Suc m)
  then have k: "k < n" and m: "m = n - Suc k" and le: "Suc k \<le> n" by simp_all
  from k have u: "[k..<n] = k # [Suc k..<n]" by (rule upt_conv_Cons)
  from k P have kP: "k < length P" by simp
  from k n have t: "take k row @ [row ! k] = take (Suc k) row"
    by (simp add: take_Suc_conv_app_nth)
  from Suc.hyps(1) [OF m le]
  have "unfilter_pixels f ps data P [Suc k..<n] (row ! k) (P ! k) (take (Suc k) row) = Inr row"
    by simp
  with step [OF k] kP show ?case
    unfolding u by (simp add: Let_def t)
qed


lemma pixel_size_filters_used [simp]:
  "pixel_size (s\<lparr>filters_used := F\<rparr>) = pixel_size s"
  by (simp add: pixel_size_def)

lemma filter_unit_pos: "0 < filter_unit r"
  by (simp add: filter_unit_def max_def)

lemma unfilter_add_back:
  "0 \<le> (v :: int) \<Longrightarrow> v < 256 \<Longrightarrow> (p + (v - p) mod 256) mod 256 = v"
  by (simp add: mod_add_right_eq)

text \<open>
  C3. For every filter type 0 to 4, every row (of any number of pixels of the
  filtering unit's size, with byte samples) and every prior row (absent for the first
  row, else a row of as many pixels of that size), \<^verbatim>\<open>_unfilter_line\<close> applied to the
  forward-filtered scanline gives the row back.
\<close>

theorem unfilter_inverts_filter:
  assumes ps: "pixel_size s = Inr r" and t: "t \<le> 4"
    and row: "\<forall>p\<in>set row. length p = filter_unit r \<and> (\<forall>v\<in>set p. 0 \<le> v \<and> v < 256)"
    and prior: "\<forall>pr. prior = Some pr \<longrightarrow>
                  length pr = length row \<and> (\<forall>p\<in>set pr. length p = filter_unit r)"
  shows "fst (unfilter_line s (forward_filter_line t (filter_unit r) row prior) prior) = Inr row"
proof -
  define ps where "ps = filter_unit r"
  define n where "n = length row"
  define z :: pixel where "z = replicate ps 0"
  define P where "P = (case prior of None \<Rightarrow> replicate n z | Some pr \<Rightarrow> pr)"
  define g where "g = (\<lambda>i. map (\<lambda>k.
         (row ! i ! k
            - fmt_predictor t (fmt_left row i k) (fmt_above prior i k) (fmt_above_left prior i k))
           mod 256) [0..<ps])"
  define data where "data = map char_of (concat (map g [0..<n]))"
  define f where "f = [type0, type1, type2, type3, type4] ! t"
  have ps0: "0 < ps" unfolding ps_def by (rule filter_unit_pos)
  have line: "forward_filter_line t (filter_unit r) row prior = char_of t # data"
    by (simp add: forward_filter_line_def forward_filter_row_def data_def g_def ps_def n_def)
  have tag: "(of_char (char_of t :: char) :: nat) = t" using t by simp
  have glen: "\<forall>xs\<in>set (map g [0..<n]). length xs = ps" by (auto simp: g_def)
  have dlen: "length data = ps * n"
    using length_concat_uniform [OF glen] by (simp add: data_def)
  with ps0 have ddiv: "length data div ps = n" by simp
  have rowlen: "\<And>i. i < n \<Longrightarrow> length (row ! i) = ps"
    using row by (simp add: n_def ps_def)
  have rowbyte: "\<And>i k. i < n \<Longrightarrow> k < ps \<Longrightarrow> 0 \<le> row ! i ! k \<and> row ! i ! k < 256"
  proof -
    fix i k assume "i < n" "k < ps"
    then have "row ! i \<in> set row" "row ! i ! k \<in> set (row ! i)"
      using rowlen [of i] by (simp_all add: n_def)
    with row show "0 \<le> row ! i ! k \<and> row ! i ! k < 256" by blast
  qed
  have Plen: "n \<le> length P"
    using prior by (cases prior) (simp_all add: P_def n_def)
  have Pilen: "\<And>i. i < n \<Longrightarrow> length (P ! i) = ps"
    using prior by (cases prior) (simp_all add: P_def n_def ps_def z_def)
  have Pabove: "\<And>i k. i < n \<Longrightarrow> k < ps \<Longrightarrow> P ! i ! k = fmt_above prior i k"
    by (cases prior) (simp_all add: P_def fmt_above_def z_def)
  have step: "f (if i = 0 then z else row ! (i - 1)) (P ! i) (if i = 0 then z else P ! (i - 1))
         (map of_char (take ps (drop (i * ps) data))) = row ! i" if i: "i < n" for i
  proof -
    let ?a = "if i = 0 then z else row ! (i - 1)"
    let ?c = "if i = 0 then z else P ! (i - 1)"
    have "take ps (drop (i * ps) (concat (map g [0..<n]))) = map g [0..<n] ! i"
      using glen i by (intro concat_slice) simp_all
    with i have sl: "take ps (drop (i * ps) data) = map char_of (g i)"
      by (simp add: data_def take_map drop_map)
    have x: "map of_char (take ps (drop (i * ps) data)) = g i"
      unfolding sl by (simp add: g_def o_def)
    have la: "length ?a = ps" using i rowlen [of "i - 1"] by (simp add: z_def)
    have lc: "length ?c = ps" using i Pilen [of "i - 1"] by (simp add: z_def)
    have lb: "length (P ! i) = ps" using i by (rule Pilen)
    have lx: "length (g i) = ps" by (simp add: g_def)
    have bx: "\<forall>v\<in>set (g i). 0 \<le> v \<and> v < 256" by (auto simp: g_def)
    from filter_table_nth [OF t la lb lc lx bx]
    have fl: "length (f ?a (P ! i) ?c (g i)) = ps"
      and fn: "\<And>k. k < ps \<Longrightarrow> f ?a (P ! i) ?c (g i) ! k
                    = (fmt_predictor t (?a ! k) (P ! i ! k) (?c ! k) + g i ! k) mod 256"
      unfolding f_def by blast+
    have "f ?a (P ! i) ?c (g i) = row ! i"
    proof (rule nth_equalityI)
      show "length (f ?a (P ! i) ?c (g i)) = length (row ! i)"
        using fl rowlen [OF i] by simp
    next
      fix k assume "k < length (f ?a (P ! i) ?c (g i))"
      with fl have k: "k < ps" by simp
      have a: "?a ! k = fmt_left row i k" using k by (simp add: fmt_left_def z_def)
      have b: "P ! i ! k = fmt_above prior i k" using i k by (rule Pabove)
      have c: "?c ! k = fmt_above_left prior i k"
        using i k Pabove [of "i - 1" k]
        by (cases "i = 0"; cases prior) (simp_all add: fmt_above_left_def fmt_above_def z_def)
      have gk: "g i ! k = (row ! i ! k
            - fmt_predictor t (fmt_left row i k) (fmt_above prior i k) (fmt_above_left prior i k))
           mod 256" using k by (simp add: g_def)
      from rowbyte [OF i k] show "f ?a (P ! i) ?c (g i) ! k = row ! i ! k"
        unfolding fn [OF k] a b c gk by (intro unfilter_add_back) simp_all
    qed
    with x show ?thesis by simp
  qed
  have "unfilter_pixels f ps data P [0..<n] z z [] = Inr row"
    using unfilter_pixels_inverse [where k = 0 and z = z, OF n_def Plen step] by simp
  then show ?thesis
    using t ps unfolding line unfilter_line_def
    by (cases prior)
       (simp_all add: tag Let_def ddiv ps_def [symmetric] P_def z_def f_def)
qed


theorem unfilter_inverts_filter_witness:
  "pixel_size ((init [])\<lparr>colorDepth := 8, colorType := 2\<rparr>) = Inr 3
   \<and> filter_unit 3 = 3
   \<and> list_all (\<lambda>p. length p = 3 \<and> list_all (\<lambda>v. 0 \<le> v \<and> v < 256) p)
         ([[10, 20, 30], [40, 250, 0]] :: pixel list)
   \<and> fst (unfilter_line ((init [])\<lparr>colorDepth := 8, colorType := 2\<rparr>)
          (forward_filter_line 4 3 [[10, 20, 30], [40, 250, 0]] (Some [[1, 2, 3], [200, 5, 255]]))
          (Some [[1, 2, 3], [200, 5, 255]])) = Inr [[10, 20, 30], [40, 250, 0]]
   \<and> fst (unfilter_line ((init [])\<lparr>colorDepth := 8, colorType := 2\<rparr>)
          (forward_filter_line 3 3 [[10, 20, 30], [40, 250, 0]] None) None)
        = Inr [[10, 20, 30], [40, 250, 0]]"
proof -
  let ?s = "(init [])\<lparr>colorDepth := 8, colorType := 2\<rparr>"
  let ?row = "[[10, 20, 30], [40, 250, 0]] :: pixel list"
  let ?pr = "[[1, 2, 3], [200, 5, 255]] :: pixel list"
  have h1: "pixel_size ?s = Inr 3" by (simp add: pixel_size_def init_def)
  have h2: "filter_unit 3 = 3" by (simp add: filter_unit_def)
  have h3: "list_all (\<lambda>p. length p = 3 \<and> list_all (\<lambda>v. 0 \<le> v \<and> v < 256) p) ?row" by simp
  have r: "\<forall>p\<in>set ?row. length p = filter_unit 3 \<and> (\<forall>v\<in>set p. 0 \<le> v \<and> v < 256)"
    by (simp add: h2)
  have p1: "\<forall>pr. Some ?pr = Some pr \<longrightarrow>
                  length pr = length ?row \<and> (\<forall>p\<in>set pr. length p = filter_unit 3)"
    by (simp add: h2)
  have p2: "\<forall>pr. (None :: pixel list option) = Some pr \<longrightarrow>
                  length pr = length ?row \<and> (\<forall>p\<in>set pr. length p = filter_unit 3)"
    by simp
  have c1: "fst (unfilter_line ?s (forward_filter_line 4 (filter_unit 3) ?row (Some ?pr)) (Some ?pr))
      = Inr ?row"
    using h1 _ r p1 by (rule unfilter_inverts_filter) simp
  have c2: "fst (unfilter_line ?s (forward_filter_line 3 (filter_unit 3) ?row None) None) = Inr ?row"
    using h1 _ r p2 by (rule unfilter_inverts_filter) simp
  note d1 = c1 [unfolded h2] and d2 = c2 [unfolded h2]
  from h1 h2 h3 d1 d2 show ?thesis by blast
qed

end
